theory Spec2Isabelle
  imports Main
begin

section \<open>The Linux notification presenter of brightray\<close>

text \<open>
  A shallow embedding of \<^verbatim>\<open>browser/linux/notification_presenter_linux.cc\<close>.
  The file is glue over libnotify, GLib, Skia and Chromium's base library. Every call
  into one of them is recorded as an event of a trace, in program order; every result
  that such a call hands back to the code is an input of the model. What the code
  itself owns is state: the member \<^verbatim>\<open>notifications_\<close> (here
  \<open>notifications\<close>), the two file-level flags of \<^verbatim>\<open>UnityIsRunning\<close>, and the
  \<^verbatim>\<open>"delegate"\<close> datum that the code attaches to each notification object and
  reads back in the callbacks.
\<close>

subsection \<open>Data\<close>

text \<open>
  Non-null addresses of the objects handled. A pointer that the code tests against
  null is an \<open>option\<close> of such an address.
\<close>

type_synonym handle = nat    \<comment> \<open>\<^verbatim>\<open>NotifyNotification*\<close>, not null\<close>
type_synonym delegate = nat  \<comment> \<open>\<^verbatim>\<open>content::DesktopNotificationDelegate*\<close>, not null\<close>
type_synonym pixbuf = nat    \<comment> \<open>\<^verbatim>\<open>GdkPixbuf*\<close>\<close>

record GError =
  domain :: nat
  code :: int
  message :: string

text \<open>
  \<^verbatim>\<open>SkBitmap\<close>: the code asks the icon one question, \<^verbatim>\<open>drawsNothing()\<close>; the
  answer is carried by the bitmap.
\<close>

record SkBitmap =
  pixels :: "nat list"
  drawsNothing :: bool

text \<open>
  \<^verbatim>\<open>content::PlatformNotificationData\<close>, the two fields the code reads. The model
  identifies a UTF-16 string with its conversion by \<^verbatim>\<open>base::UTF16ToUTF8\<close>.
\<close>

record PlatformNotificationData =
  title :: string
  body :: string

text \<open>
  The value of a \<^verbatim>\<open>base::Closure\<close>: either what the caller had put there, or the
  binding \<^verbatim>\<open>base::Bind(&CancelNotification, base::Unretained(this), notification)\<close>.
\<close>

datatype Closure = CallerClosure nat | BoundCancelNotification handle

datatype event =
    EnumerateUsrLib
  | LibLoad string
  | NotifyIsInitted
  | NotifyInit string
  | NotifyNotificationNew string string handle
  | GObjectSetDataFull handle "delegate option"
  | GSignalConnect handle string
  | NotifyNotificationAddAction handle string string
  | GdkPixbufFromSkBitmap SkBitmap pixbuf
  | NotifyNotificationSetImageFromPixbuf handle pixbuf
  | NotifyNotificationSetTimeoutDefault handle
  | GObjectUnrefPixbuf pixbuf
  | NotifyNotificationShow handle
  | NotifyNotificationClose handle
  | LogError string GError
  | GObjectUnref handle
  | NotificationDisplayed delegate
  | NotificationClosed delegate
  | NotificationClick delegate

text \<open>
  The state: the presenter's member, the file-level flags, the object data set with
  \<^verbatim>\<open>g_object_set_data_full\<close> under the key \<^verbatim>\<open>"delegate"\<close>, and the trace.
\<close>

record world =
  notifications :: "handle list"
  unity_has_result :: bool
  unity_result :: bool
  delegate_data :: "handle \<rightharpoonup> delegate"
  trace :: "event list"

text \<open>Calling through a null delegate pointer is the one way the code can crash.\<close>

datatype crash = NullDelegate

definition emit :: "event \<Rightarrow> world \<Rightarrow> world" where
  "emit e w = w\<lparr>trace := trace w @ [e]\<rparr>"

text \<open>The events a call has added to the trace.\<close>

definition new_events :: "world \<Rightarrow> world \<Rightarrow> event list" where
  "new_events w w' = drop (length (trace w)) (trace w')"

subsection \<open>UnityIsRunning\<close>

text \<open>
  \<^verbatim>\<open>base::StartsWith(str, search, base::CompareCase::SENSITIVE)\<close>.
\<close>

definition StartsWith :: "string \<Rightarrow> string \<Rightarrow> bool" where
  "StartsWith str search = (take (length search) str = search)"

text \<open>
  \<^verbatim>\<open>base::FileEnumerator(base::FilePath("/usr/lib"), false, FILES)\<close> is given by the
  names of the files directly in the directory, in the order the enumerator visits
  them. \<^verbatim>\<open>Next()\<close> yields the directory's path joined with the next name, and the
  empty path once the names are used up.
\<close>

definition Next :: "string list \<Rightarrow> string \<times> string list" where
  "Next enumerator =
     (case enumerator of
        [] \<Rightarrow> ([], [])
      | name # rest \<Rightarrow> (''/usr/lib/'' @ name, rest))"

text \<open>
  The \<^verbatim>\<open>while\<close> loop of \<^verbatim>\<open>UnityIsRunning\<close>, on the enumerator and the current
  value of \<^verbatim>\<open>unity_result\<close>; it returns the value the flag has after the loop.
\<close>

fun scan_usr_lib :: "string list \<Rightarrow> bool \<Rightarrow> bool" where
  "scan_usr_lib [] result = result"
| "scan_usr_lib (name # rest) result =
     (let haystack = fst (Next (name # rest)) in
      if haystack = [] then result
      else if StartsWith haystack ''/usr/lib/libunity-'' then True
      else scan_usr_lib rest result)"

text \<open>
  The first argument is the result of \<^verbatim>\<open>getenv("ELECTRON_USE_UBUNTU_NOTIFIER")\<close>
  (\<open>None\<close> for a null pointer), the second the files of \<^verbatim>\<open>/usr/lib\<close> at the time of
  the call.
\<close>

definition UnityIsRunning :: "string option \<Rightarrow> string list \<Rightarrow> world \<Rightarrow> bool \<times> world" where
  "UnityIsRunning env files w =
     (if env \<noteq> None then (True, w)
      else if unity_has_result w then (unity_result w, w)
      else
        let w = w\<lparr>unity_has_result := True\<rparr>;
            w = emit EnumerateUsrLib w;
            w = w\<lparr>unity_result := scan_usr_lib files (unity_result w)\<rparr>
        in (unity_result w, w))"

text \<open>A run of calls, each with the environment and the directory it finds.\<close>

fun UnityIsRunning_calls ::
  "(string option \<times> string list) list \<Rightarrow> world \<Rightarrow> bool list \<times> world" where
  "UnityIsRunning_calls [] w = ([], w)"
| "UnityIsRunning_calls (c # cs) w =
     (let (r, w1) = UnityIsRunning (fst c) (snd c) w;
          (rs, w2) = UnityIsRunning_calls cs w1
      in (r # rs, w2))"

text \<open>Whether a directory holds a file whose path starts with \<^verbatim>\<open>/usr/lib/libunity-\<close>.\<close>

definition has_libunity :: "string list \<Rightarrow> bool" where
  "has_libunity files =
     list_ex (\<lambda>name. StartsWith (''/usr/lib/'' @ name) ''/usr/lib/libunity-'') files"

text \<open>The directory that the first call with the variable unset finds.\<close>

definition first_scanned :: "(string option \<times> string list) list \<Rightarrow> string list" where
  "first_scanned cs = (case filter (\<lambda>c. fst c = None) cs of [] \<Rightarrow> [] | c # _ \<Rightarrow> snd c)"

definition scans :: "event list \<Rightarrow> nat" where
  "scans evs = length (filter (\<lambda>e. e = EnumerateUsrLib) evs)"

subsection \<open>Creation\<close>

text \<open>
  What the loader and libnotify answer during \<^verbatim>\<open>Init\<close>: whether
  \<^verbatim>\<open>libnotify_loader_.Load\<close> succeeds for a name, the results of
  \<^verbatim>\<open>notify_is_initted\<close> and of \<^verbatim>\<open>notify_init\<close>, and the application's name.
\<close>

record init_answers =
  Load :: "string \<Rightarrow> bool"
  notify_is_initted :: bool
  notify_init :: "string \<Rightarrow> bool"
  GetApplicationName :: string

definition call_Load :: "init_answers \<Rightarrow> string \<Rightarrow> event list \<Rightarrow> bool \<times> event list" where
  "call_Load x name t = (Load x name, t @ [LibLoad name])"

definition call_notify_is_initted :: "init_answers \<Rightarrow> event list \<Rightarrow> bool \<times> event list" where
  "call_notify_is_initted x t = (notify_is_initted x, t @ [NotifyIsInitted])"

definition call_notify_init :: "init_answers \<Rightarrow> string \<Rightarrow> event list \<Rightarrow> bool \<times> event list" where
  "call_notify_init x name t = (notify_init x name, t @ [NotifyInit name])"

text \<open>
  \<^verbatim>\<open>Init\<close>. The operands of \<^verbatim>\<open>&&\<close> are evaluated left to right and only while
  the ones before hold, so a call that is skipped leaves no event.
\<close>

definition Init :: "init_answers \<Rightarrow> event list \<Rightarrow> bool \<times> event list" where
  "Init x t =
     (let (l4, t) = call_Load x ''libnotify.so.4'' t;
          (l1, t) = (if \<not> l4 then call_Load x ''libnotify.so.1'' t else (False, t));
          (l0, t) = (if \<not> l4 \<and> \<not> l1 then call_Load x ''libnotify.so'' t else (False, t))
      in if \<not> l4 \<and> \<not> l1 \<and> \<not> l0 then (False, t)
         else
           let (initted, t) = call_notify_is_initted x t;
               (init, t) = (if \<not> initted then call_notify_init x (GetApplicationName x) t
                            else (False, t))
           in if \<not> initted \<and> \<not> init then (False, t) else (True, t))"

text \<open>
  \<^verbatim>\<open>NotificationPresenter::Create\<close>: \<open>None\<close> is \<^verbatim>\<open>nullptr\<close>; a presenter is
  given by its member, which the constructor sets to the empty list.
\<close>

definition Create :: "init_answers \<Rightarrow> event list \<Rightarrow> handle list option \<times> event list" where
  "Create x t =
     (let presenter = [];
          (ok, t) = Init x t
      in if ok then (Some presenter, t) else (None, t))"

text \<open>The names \<^verbatim>\<open>Init\<close> is to try, and the attempts up to the first that loads.\<close>

definition library_names :: "string list" where
  "library_names = [''libnotify.so.4'', ''libnotify.so.1'', ''libnotify.so'']"

definition attempts :: "init_answers \<Rightarrow> string list" where
  "attempts x =
     takeWhile (\<lambda>n. \<not> Load x n) library_names @
     take 1 (dropWhile (\<lambda>n. \<not> Load x n) library_names)"

fun is_load :: "event \<Rightarrow> bool" where
  "is_load (LibLoad n) = True"
| "is_load e = False"

subsection \<open>Showing, cancelling and the callbacks\<close>

text \<open>
  \<^verbatim>\<open>g_object_set_data_full(G_OBJECT(notification), "delegate", delegate, operator delete)\<close>:
  a null datum clears the key.
\<close>

definition g_object_set_data_full :: "handle \<Rightarrow> delegate option \<Rightarrow> world \<Rightarrow> world" where
  "g_object_set_data_full notification d w =
     emit (GObjectSetDataFull notification d)
       (w\<lparr>delegate_data := (delegate_data w)(notification := d)\<rparr>)"

text \<open>
  \<^verbatim>\<open>g_object_unref(notification)\<close>. The presenter holds the one reference to a
  notification, the one \<^verbatim>\<open>notify_notification_new\<close> returned (the code takes no
  other), so dropping it ends the object and, with it, the datum attached.
\<close>

definition g_object_unref :: "handle \<Rightarrow> world \<Rightarrow> world" where
  "g_object_unref notification w =
     emit (GObjectUnref notification)
       (w\<lparr>delegate_data := (delegate_data w)(notification := None)\<rparr>)"

definition log_and_clear_error :: "GError \<Rightarrow> string \<Rightarrow> world \<Rightarrow> world" where
  "log_and_clear_error error context w = emit (LogError context error) w"

definition GetDelegateFromNotification :: "handle \<Rightarrow> world \<Rightarrow> delegate option" where
  "GetDelegateFromNotification notification w = delegate_data w notification"

text \<open>
  The arguments of \<^verbatim>\<open>ShowNotification\<close>. \<open>delegate_ptr\<close> is what the
  \<^verbatim>\<open>scoped_ptr\<close> holds. \<open>cancel_callback\<close> is \<open>None\<close> for a null pointer and
  otherwise the closure it points to, as the caller left it.
\<close>

record show_args =
  data :: PlatformNotificationData
  icon :: SkBitmap
  delegate_ptr :: "delegate option"
  cancel_callback :: "Closure option"

text \<open>
  What the environment answers during one \<^verbatim>\<open>ShowNotification\<close>: the variable
  and the directory \<^verbatim>\<open>UnityIsRunning\<close> sees, the object
  \<^verbatim>\<open>notify_notification_new\<close> returns, the pixbuf
  \<^verbatim>\<open>libgtk2ui::GdkPixbufFromSkBitmap\<close> returns, and the error
  \<^verbatim>\<open>notify_notification_show\<close> stores (\<open>None\<close> when it leaves the pointer null).
\<close>

record show_answers =
  getenv_result :: "string option"
  usr_lib_files :: "string list"
  notify_notification_new :: handle
  pixbuf_result :: pixbuf
  show_error :: "GError option"

text \<open>
  \<^verbatim>\<open>std::string::c_str()\<close> handed to a C function: the callee reads up to the
  first NUL.
\<close>

definition c_str :: "string \<Rightarrow> string" where
  "c_str s = takeWhile (\<lambda>c. c \<noteq> CHR 0x00) s"

text \<open>
  \<^verbatim>\<open>ShowNotification\<close> returns the closure \<^verbatim>\<open>cancel_callback\<close> points to
  afterwards, and the new state.
\<close>

definition ShowNotification ::
  "show_args \<Rightarrow> show_answers \<Rightarrow> world \<Rightarrow> crash + (Closure option \<times> world)" where
  "ShowNotification a x w =
     (let notification = notify_notification_new x;
          w = emit (NotifyNotificationNew (c_str (title (data a))) (c_str (body (data a)))
                      notification) w;
          delegate = delegate_ptr a;
          w = g_object_set_data_full notification delegate w;
          w = emit (GSignalConnect notification ''closed'') w;
          (unity, w) = UnityIsRunning (getenv_result x) (usr_lib_files x) w;
          w = (if \<not> unity
               then emit (NotifyNotificationAddAction notification ''default'' ''View'') w
               else w);
          w = (if \<not> drawsNothing (icon a)
               then
                 let pixbuf = pixbuf_result x;
                     w = emit (GdkPixbufFromSkBitmap (icon a) pixbuf) w;
                     w = emit (NotifyNotificationSetImageFromPixbuf notification pixbuf) w;
                     w = emit (NotifyNotificationSetTimeoutDefault notification) w
                 in emit (GObjectUnrefPixbuf pixbuf) w
               else w);
          w = emit (NotifyNotificationShow notification) w
      in case show_error x of
           Some error \<Rightarrow>
             let w = log_and_clear_error error ''notify_notification_show'' w;
                 w = g_object_unref notification w
             in Inr (cancel_callback a, w)
         | None \<Rightarrow>
             let w = w\<lparr>notifications := notifications w @ [notification]\<rparr> in
             (case delegate of
                None \<Rightarrow> Inl NullDelegate
              | Some d \<Rightarrow>
                  let w = emit (NotificationDisplayed d) w in
                  Inr (case cancel_callback a of
                         None \<Rightarrow> None
                       | Some c \<Rightarrow> Some (BoundCancelNotification notification), w)))"

text \<open>\<^verbatim>\<open>g_list_remove\<close> takes out the first element equal to the datum, if any.\<close>

definition DeleteNotification :: "handle \<Rightarrow> world \<Rightarrow> world" where
  "DeleteNotification notification w =
     (let w = w\<lparr>notifications := remove1 notification (notifications w)\<rparr>
      in g_object_unref notification w)"

text \<open>
  \<^verbatim>\<open>CancelNotification\<close> is reached through the closure bound in
  \<^verbatim>\<open>ShowNotification\<close>, so its argument is not null. The second argument is the
  error \<^verbatim>\<open>notify_notification_close\<close> stores.
\<close>

definition CancelNotification :: "handle \<Rightarrow> GError option \<Rightarrow> world \<Rightarrow> crash + world" where
  "CancelNotification notification close_error w =
     (let w = emit (NotifyNotificationClose notification) w;
          w = (case close_error of
                 Some error \<Rightarrow> log_and_clear_error error ''notify_notification_close'' w
               | None \<Rightarrow> w)
      in case GetDelegateFromNotification notification w of
           None \<Rightarrow> Inl NullDelegate
         | Some d \<Rightarrow>
             let w = emit (NotificationClosed d) w
             in Inr (DeleteNotification notification w))"

definition OnNotificationClosed :: "handle option \<Rightarrow> world \<Rightarrow> crash + world" where
  "OnNotificationClosed notification w =
     (case notification of
        None \<Rightarrow> Inr w
      | Some n \<Rightarrow>
          (case GetDelegateFromNotification n w of
             None \<Rightarrow> Inl NullDelegate
           | Some d \<Rightarrow>
               let w = emit (NotificationClosed d) w
               in Inr (DeleteNotification n w)))"

definition OnNotificationView :: "handle option \<Rightarrow> string \<Rightarrow> world \<Rightarrow> crash + world" where
  "OnNotificationView notification action w =
     (case notification of
        None \<Rightarrow> Inr w
      | Some n \<Rightarrow>
          (case GetDelegateFromNotification n w of
             None \<Rightarrow> Inl NullDelegate
           | Some d \<Rightarrow>
               let w = emit (NotificationClick d) w
               in Inr (DeleteNotification n w)))"

subsection \<open>The presenter's operations as steps\<close>

datatype op =
    Show show_args show_answers
  | Cancel handle "GError option"
  | Closed "handle option"
  | View "handle option" string

definition step :: "op \<Rightarrow> world \<Rightarrow> crash + world" where
  "step operation w =
     (case operation of
        Show a x \<Rightarrow> map_sum id snd (ShowNotification a x w)
      | Cancel n e \<Rightarrow> CancelNotification n e w
      | Closed n \<Rightarrow> OnNotificationClosed n w
      | View n action \<Rightarrow> OnNotificationView n action w)"

text \<open>
  The destructor, which releases what is still tracked and frees the list, ends the
  presenter and is no step.
\<close>

text \<open>
  The tracked list as the specification words it: a successful show appends the
  handle; a cancel, a close report and a click report take it out; nothing else
  touches the list.
\<close>

definition tracked_after :: "op \<Rightarrow> handle list \<Rightarrow> handle list" where
  "tracked_after operation l =
     (case operation of
        Show a x \<Rightarrow>
          (if show_error x = None then l @ [notify_notification_new x] else l)
      | Cancel n e \<Rightarrow> remove1 n l
      | Closed n \<Rightarrow> (case n of None \<Rightarrow> l | Some h \<Rightarrow> remove1 h l)
      | View n action \<Rightarrow> (case n of None \<Rightarrow> l | Some h \<Rightarrow> remove1 h l))"

text \<open>
  Each tracked handle occurs once and still carries its delegate; the object that
  \<^verbatim>\<open>notify_notification_new\<close> returns is none of the live ones.
\<close>

definition tracked_ok :: "world \<Rightarrow> bool" where
  "tracked_ok w =
     (distinct (notifications w) \<and>
      list_all (\<lambda>h. delegate_data w h \<noteq> None) (notifications w))"

definition fresh :: "op \<Rightarrow> world \<Rightarrow> bool" where
  "fresh operation w =
     (case operation of
        Show a x \<Rightarrow> notify_notification_new x \<notin> set (notifications w)
      | _ \<Rightarrow> True)"

text \<open>A sequence of operations on the presenter; a crash ends it.\<close>

fun run :: "op list \<Rightarrow> world \<Rightarrow> crash + world" where
  "run [] w = Inr w"
| "run (operation # rest) w =
     (case step operation w of
        Inl c \<Rightarrow> Inl c
      | Inr w' \<Rightarrow> run rest w')"

text \<open>
  The pointer through which an operation calls its delegate is not null: a show
  that succeeds has a delegate to tell, and the notification of a cancel, a close
  report or a click report carries one.
\<close>

definition delegate_present :: "op \<Rightarrow> world \<Rightarrow> bool" where
  "delegate_present operation w =
     (case operation of
        Show a x \<Rightarrow> show_error x \<noteq> None \<or> delegate_ptr a \<noteq> None
      | Cancel n e \<Rightarrow> delegate_data w n \<noteq> None
      | Closed n \<Rightarrow> (case n of None \<Rightarrow> True | Some h \<Rightarrow> delegate_data w h \<noteq> None)
      | View n action \<Rightarrow> (case n of None \<Rightarrow> True | Some h \<Rightarrow> delegate_data w h \<noteq> None))"

text \<open>
  An operation as the service and the caller issue it, given the handles tracked:
  a show comes with a delegate and gets a new object; a cancel, a close report and
  a click report are about a notification that is tracked.
\<close>

definition in_order :: "op \<Rightarrow> handle list \<Rightarrow> bool" where
  "in_order operation l =
     (case operation of
        Show a x \<Rightarrow> delegate_ptr a \<noteq> None \<and> notify_notification_new x \<notin> set l
      | Cancel n e \<Rightarrow> n \<in> set l
      | Closed n \<Rightarrow> (case n of None \<Rightarrow> True | Some h \<Rightarrow> h \<in> set l)
      | View n action \<Rightarrow> (case n of None \<Rightarrow> True | Some h \<Rightarrow> h \<in> set l))"

fun all_in_order :: "op list \<Rightarrow> handle list \<Rightarrow> bool" where
  "all_in_order [] l = True"
| "all_in_order (operation # rest) l =
     (in_order operation l \<and> all_in_order rest (tracked_after operation l))"

fun is_delegate_call :: "event \<Rightarrow> bool" where
  "is_delegate_call (NotificationDisplayed d) = True"
| "is_delegate_call (NotificationClosed d) = True"
| "is_delegate_call (NotificationClick d) = True"
| "is_delegate_call e = False"

fun is_show :: "event \<Rightarrow> bool" where
  "is_show (NotifyNotificationShow n) = True"
| "is_show e = False"

fun is_add_action :: "event \<Rightarrow> bool" where
  "is_add_action (NotifyNotificationAddAction n a l) = True"
| "is_add_action e = False"

fun is_image_event :: "event \<Rightarrow> bool" where
  "is_image_event (GdkPixbufFromSkBitmap b p) = True"
| "is_image_event (NotifyNotificationSetImageFromPixbuf n p) = True"
| "is_image_event e = False"

text \<open>The last \<open>k\<close> events of a list.\<close>

definition last_events :: "nat \<Rightarrow> event list \<Rightarrow> event list" where
  "last_events k evs = drop (length evs - k) evs"

text \<open>The flags as their initialisers leave them when the process starts.\<close>

definition process_start :: "world \<Rightarrow> bool" where
  "process_start w = (\<not> unity_has_result w \<and> \<not> unity_result w)"

subsection \<open>Example inputs\<close>

definition example_error :: GError where
  "example_error = \<lparr>domain = 1, code = 2, message = ''no reply from the daemon''\<rparr>"

text \<open>A presenter that tracks notification 7, which carries delegate 3.\<close>

definition example_world :: world where
  "example_world =
     \<lparr>notifications = [7], unity_has_result = False, unity_result = False,
      delegate_data = [7 \<mapsto> 3], trace = []\<rparr>"

definition example_args :: show_args where
  "example_args =
     \<lparr>data = \<lparr>title = ''Build'', body = ''finished''\<rparr>,
      icon = \<lparr>pixels = [255, 0, 0, 255], drawsNothing = False\<rparr>,
      delegate_ptr = Some 4,
      cancel_callback = Some (CallerClosure 0)\<rparr>"

definition example_answers :: show_answers where
  "example_answers =
     \<lparr>getenv_result = None,
      usr_lib_files = [''libc.so.6'', ''libnotify.so.4''],
      notify_notification_new = 8,
      pixbuf_result = 5,
      show_error = None\<rparr>"

text \<open>The same answers, but \<^verbatim>\<open>notify_notification_show\<close> fails.\<close>

definition example_answers_error :: show_answers where
  "example_answers_error = example_answers\<lparr>show_error := Some example_error\<rparr>"

text \<open>The same answers, but \<^verbatim>\<open>ELECTRON_USE_UBUNTU_NOTIFIER\<close> is set.\<close>

definition example_answers_env :: show_answers where
  "example_answers_env = example_answers\<lparr>getenv_result := Some ''1''\<rparr>"

text \<open>
  Notification 8 is shown, 7 is cancelled, a null close report arrives, 8 is
  clicked, 8 is shown again and reported closed, and a show fails.
\<close>

definition example_run :: "op list" where
  "example_run =
     [Show example_args example_answers,
      Cancel 7 None,
      Closed None,
      View (Some 8) ''default'',
      Show example_args example_answers,
      Closed (Some 8),
      Show example_args (example_answers\<lparr>notify_notification_new := 9,
                                           show_error := Some example_error\<rparr>),
      Show example_args (example_answers\<lparr>notify_notification_new := 10\<rparr>)]"

definition example_init :: init_answers where
  "example_init =
     \<lparr>Load = (\<lambda>name. name = ''libnotify.so.1''),
      notify_is_initted = False,
      notify_init = (\<lambda>name. name = ''brightray''),
      GetApplicationName = ''brightray''\<rparr>"

text \<open>
  Three calls: the variable set; the variable unset and libunity installed; the
  variable unset and libunity gone.
\<close>

definition example_calls :: "(string option \<times> string list) list" where
  "example_calls =
     [(Some ''1'', [''libc.so.6'']),
      (None, [''libc.so.6'', ''libunity-core-6.0.so.9'']),
      (None, [''libc.so.6''])]"

section \<open>Properties\<close>

subsection \<open>Auxiliary facts\<close>

lemmas show_defs = ShowNotification_def UnityIsRunning_def g_object_set_data_full_def
  g_object_unref_def log_and_clear_error_def emit_def new_events_def last_events_def Let_def

lemmas callback_defs = CancelNotification_def OnNotificationClosed_def OnNotificationView_def
  DeleteNotification_def GetDelegateFromNotification_def g_object_unref_def
  log_and_clear_error_def emit_def new_events_def Let_def

lemma ShowNotification_returns:
  "(\<exists>cb w'. ShowNotification a x w = Inr (cb, w')) =
     (show_error x \<noteq> None \<or> delegate_ptr a \<noteq> None)"
  by (auto simp add: show_defs split: option.splits if_splits)

lemma ShowNotification_fields:
  assumes "ShowNotification a x w = Inr (cb, w')"
  shows "notifications w' =
           (if show_error x = None then notifications w @ [notify_notification_new x]
            else notifications w)"
    and "delegate_data w' =
           (delegate_data w)(notify_notification_new x :=
              (if show_error x = None then delegate_ptr a else None))"
    and "show_error x = None \<Longrightarrow> delegate_ptr a \<noteq> None"
  using assms by (auto simp add: show_defs split: option.splits if_splits)

lemma ShowNotification_add_action:
  assumes "ShowNotification a x w = Inr (cb, w')"
  shows "filter is_add_action (new_events w w') =
     (if fst (UnityIsRunning (getenv_result x) (usr_lib_files x) w) then []
      else [NotifyNotificationAddAction (notify_notification_new x) ''default'' ''View''])"
  using assms by (auto simp add: show_defs split: option.splits if_splits)

lemma ShowNotification_image:
  assumes "ShowNotification a x w = Inr (cb, w')"
  shows "filter (\<lambda>e. is_image_event e \<or> is_show e) (new_events w w') =
     (if drawsNothing (icon a) then []
      else [GdkPixbufFromSkBitmap (icon a) (pixbuf_result x),
            NotifyNotificationSetImageFromPixbuf (notify_notification_new x) (pixbuf_result x)])
     @ [NotifyNotificationShow (notify_notification_new x)]"
  using assms by (auto simp add: show_defs split: option.splits if_splits)

lemma tracked_ok_emit: "tracked_ok (emit e w) = tracked_ok w"
  by (simp add: tracked_ok_def emit_def)

lemma DeleteNotification_tracked:
  assumes "tracked_ok w"
  shows "tracked_ok (DeleteNotification n w)"
    and "n \<notin> set (notifications (DeleteNotification n w))"
  using assms
  by (auto simp add: tracked_ok_def DeleteNotification_def g_object_unref_def emit_def
        list_all_iff dest: notin_set_remove1)

lemma tracked_has_delegate:
  "tracked_ok w \<Longrightarrow> n \<in> set (notifications w) \<Longrightarrow> delegate_data w n \<noteq> None"
  by (simp add: tracked_ok_def list_all_iff)

lemma step_list:
  "step operation w = Inr w' \<Longrightarrow> notifications w' = tracked_after operation (notifications w)"
  by (cases operation)
     (auto simp add: step_def tracked_after_def show_defs callback_defs
           split: option.splits if_splits)

lemma step_keeps_tracked_ok:
  assumes "step operation w = Inr w'" "tracked_ok w" "fresh operation w"
  shows "tracked_ok w'"
proof (cases operation)
  case (Show a x)
  then obtain cb where "ShowNotification a x w = Inr (cb, w')"
    using assms(1) by (auto simp add: step_def map_sum_def split: sum.splits)
  from ShowNotification_fields [OF this] assms(2,3) Show show ?thesis
    by (auto simp add: tracked_ok_def fresh_def list_all_iff split: if_splits)
next
  case (Cancel n e)
  then show ?thesis
    using assms(1,2) DeleteNotification_tracked(1)
    by (auto simp add: step_def CancelNotification_def GetDelegateFromNotification_def
          log_and_clear_error_def Let_def tracked_ok_emit split: option.splits)
next
  case (Closed n)
  then show ?thesis
    using assms(1,2) DeleteNotification_tracked(1)
    by (auto simp add: step_def OnNotificationClosed_def GetDelegateFromNotification_def
          Let_def tracked_ok_emit split: option.splits)
next
  case (View n action)
  then show ?thesis
    using assms(1,2) DeleteNotification_tracked(1)
    by (auto simp add: step_def OnNotificationView_def GetDelegateFromNotification_def
          Let_def tracked_ok_emit split: option.splits)
qed

lemma step_takes_out:
  assumes "step operation w = Inr w'" "tracked_ok w"
    and "operation = Cancel n e \<or> operation = Closed (Some n) \<or> operation = View (Some n) action"
  shows "n \<notin> set (notifications w')"
  using assms DeleteNotification_tracked(2) [of "emit ev w0" n for ev w0]
  by (auto simp add: step_def CancelNotification_def OnNotificationClosed_def
        OnNotificationView_def GetDelegateFromNotification_def log_and_clear_error_def
        Let_def tracked_ok_emit split: option.splits)

lemma step_returns_iff:
  "(\<exists>w'. step operation w = Inr w') = delegate_present operation w"
proof (cases operation)
  case (Show a x)
  have "(\<exists>w'. map_sum id snd (ShowNotification a x w) = Inr w') =
        (\<exists>cb w'. ShowNotification a x w = Inr (cb, w'))"
    by (cases "ShowNotification a x w") auto
  then show ?thesis
    using Show ShowNotification_returns [of a x w]
    by (simp add: step_def delegate_present_def)
next
  case (Cancel n e)
  then show ?thesis
    by (simp add: step_def delegate_present_def CancelNotification_def
          GetDelegateFromNotification_def log_and_clear_error_def emit_def Let_def
          split: option.splits)
next
  case (Closed n)
  then show ?thesis
    by (simp add: step_def delegate_present_def OnNotificationClosed_def
          GetDelegateFromNotification_def emit_def Let_def split: option.splits)
next
  case (View n action)
  then show ?thesis
    by (simp add: step_def delegate_present_def OnNotificationView_def
          GetDelegateFromNotification_def emit_def Let_def split: option.splits)
qed

lemma in_order_present:
  assumes "tracked_ok w" "in_order operation (notifications w)"
  shows "delegate_present operation w" and "fresh operation w"
  using assms
  by (auto simp add: in_order_def delegate_present_def fresh_def tracked_ok_def list_all_iff
        split: op.splits option.splits)

lemma run_in_order:
  "tracked_ok w \<Longrightarrow> all_in_order ops (notifications w) \<Longrightarrow>
   \<exists>w'. run ops w = Inr w' \<and>
        notifications w' = fold tracked_after ops (notifications w) \<and> tracked_ok w'"
proof (induction ops arbitrary: w)
  case Nil
  then show ?case by simp
next
  case (Cons operation rest)
  from Cons.prems have ord: "in_order operation (notifications w)"
    and rest: "all_in_order rest (tracked_after operation (notifications w))"
    by simp_all
  from in_order_present [OF Cons.prems(1) ord] obtain w1 where
    w1: "step operation w = Inr w1" and fr: "fresh operation w"
    using step_returns_iff [of operation w] by blast
  have l1: "notifications w1 = tracked_after operation (notifications w)"
    by (rule step_list [OF w1])
  have ok1: "tracked_ok w1"
    by (rule step_keeps_tracked_ok [OF w1 Cons.prems(1) fr])
  from Cons.IH [OF ok1] rest l1 obtain w' where
    "run rest w1 = Inr w'"
    "notifications w' = fold tracked_after rest (notifications w1)" "tracked_ok w'"
    by auto
  then show ?case
    using w1 l1 by simp
qed

lemma scan_usr_lib_eq: "scan_usr_lib files r = (r \<or> has_libunity files)"
  by (induction files) (auto simp add: has_libunity_def Next_def Let_def)

lemma calls_cached:
  "unity_has_result w \<Longrightarrow>
   UnityIsRunning_calls cs w = (map (\<lambda>c. fst c \<noteq> None \<or> unity_result w) cs, w)"
  by (induction cs) (auto simp add: UnityIsRunning_def)

lemma calls_from_start:
  "\<not> unity_has_result w \<Longrightarrow> \<not> unity_result w \<Longrightarrow>
   fst (UnityIsRunning_calls cs w) =
     map (\<lambda>c. fst c \<noteq> None \<or> has_libunity (first_scanned cs)) cs"
proof (induction cs)
  case Nil
  then show ?case by simp
next
  case (Cons c cs)
  show ?case
  proof (cases "fst c")
    case None
    let ?w1 = "snd (UnityIsRunning None (snd c) w)"
    have h: "unity_has_result ?w1" and r: "unity_result ?w1 = has_libunity (snd c)"
      using Cons.prems by (simp_all add: UnityIsRunning_def Let_def emit_def scan_usr_lib_eq)
    have f: "first_scanned (c # cs) = snd c"
      using None by (simp add: first_scanned_def)
    have "fst (UnityIsRunning None (snd c) w) = has_libunity (snd c)"
      using Cons.prems by (simp add: UnityIsRunning_def Let_def emit_def scan_usr_lib_eq)
    then show ?thesis
      using None calls_cached [OF h, of cs] r f
      by (simp add: split_beta)
  next
    case (Some v)
    then have "first_scanned (c # cs) = first_scanned cs"
      by (simp add: first_scanned_def)
    then show ?thesis
      using Some Cons by (simp add: UnityIsRunning_def split_beta)
  qed
qed

lemma calls_uniform:
  "\<exists>v evs. fst (UnityIsRunning_calls cs w) = map (\<lambda>c. fst c \<noteq> None \<or> v) cs \<and>
      trace (snd (UnityIsRunning_calls cs w)) = trace w @ evs \<and> scans evs \<le> 1"
proof (induction cs)
  case Nil
  then show ?case by (simp add: scans_def)
next
  case (Cons c cs)
  show ?case
  proof (cases "fst c = None \<and> \<not> unity_has_result w")
    case True
    let ?w1 = "snd (UnityIsRunning None (snd c) w)"
    have h: "unity_has_result ?w1"
      and t: "trace ?w1 = trace w @ [EnumerateUsrLib]"
      and r: "fst (UnityIsRunning None (snd c) w) = unity_result ?w1"
      using True by (simp_all add: UnityIsRunning_def Let_def emit_def)
    have "fst (UnityIsRunning_calls (c # cs) w) =
            map (\<lambda>c. fst c \<noteq> None \<or> unity_result ?w1) (c # cs)"
      using True calls_cached [OF h, of cs] r by (simp add: split_beta)
    moreover have "trace (snd (UnityIsRunning_calls (c # cs) w)) = trace w @ [EnumerateUsrLib]"
      using True calls_cached [OF h, of cs] t by (simp add: split_beta)
    moreover have "scans [EnumerateUsrLib] \<le> 1"
      by (simp add: scans_def)
    ultimately show ?thesis by blast
  next
    case False
    show ?thesis
    proof (cases "unity_has_result w")
      case True
      have "scans [] \<le> 1" by (simp add: scans_def)
      then show ?thesis
        using calls_cached [OF True, of "c # cs"] by (metis append_Nil2 fst_conv snd_conv)
    next
      case nocache: False
      with False obtain y where y: "fst c = Some y" by auto
      then have u: "UnityIsRunning (fst c) (snd c) w = (True, w)"
        by (simp add: UnityIsRunning_def)
      from Cons obtain v evs where
        v: "fst (UnityIsRunning_calls cs w) = map (\<lambda>c. fst c \<noteq> None \<or> v) cs"
        and e: "trace (snd (UnityIsRunning_calls cs w)) = trace w @ evs" "scans evs \<le> 1"
        by blast
      have "fst (UnityIsRunning_calls (c # cs) w) = map (\<lambda>c. fst c \<noteq> None \<or> v) (c # cs)"
        using u v y by (simp add: split_beta)
      moreover have "trace (snd (UnityIsRunning_calls (c # cs) w)) = trace w @ evs"
        using u e by (simp add: split_beta)
      ultimately show ?thesis using e(2) by blast
    qed
  qed
qed

lemma calls_length: "length (fst (UnityIsRunning_calls cs w)) = length cs"
  by (induction cs arbitrary: w) (simp_all add: split_beta)

subsection \<open>The callbacks on a null notification\<close>

text \<open>
  C10. \<^verbatim>\<open>OnNotificationClosed\<close> and \<^verbatim>\<open>OnNotificationView\<close> called with a null
  notification return at once: the state comes back as it was, so the tracked list
  is unchanged and the trace has grown by nothing, neither a delegate call nor a
  read of the handle's data.
\<close>

theorem null_notification_noop:
  "OnNotificationClosed None w = Inr w \<and> OnNotificationView None action w = Inr w"
  by (simp add: OnNotificationClosed_def OnNotificationView_def)

theorem null_notification_noop_witness:
  "OnNotificationClosed None example_world = Inr example_world \<and>
   OnNotificationView None ''default'' example_world = Inr example_world"
  by (rule null_notification_noop)

subsection \<open>Errors of the service\<close>

text \<open>
  C2. When \<^verbatim>\<open>notify_notification_show\<close> reports an error, \<^verbatim>\<open>ShowNotification\<close>
  returns with the caller's closure as it was (no cancel callback is installed) and
  the tracked list as it was; among the events of the call there is no delegate
  call and exactly one \<^verbatim>\<open>notify_notification_show\<close> (no retry); the call ends
  with the show, the log of the error and the release of the notification.
\<close>

theorem ShowNotification_error_abandons:
  assumes "show_error x = Some e"
  shows "\<exists>w'. ShowNotification a x w = Inr (cancel_callback a, w') \<and>
     notifications w' = notifications w \<and>
     filter is_delegate_call (new_events w w') = [] \<and>
     filter is_show (new_events w w') = [NotifyNotificationShow (notify_notification_new x)] \<and>
     last_events 3 (new_events w w') =
       [NotifyNotificationShow (notify_notification_new x),
        LogError ''notify_notification_show'' e,
        GObjectUnref (notify_notification_new x)]"
  using assms by (auto simp add: show_defs split: option.splits if_splits)

theorem ShowNotification_error_abandons_witness:
  "show_error example_answers_error = Some example_error \<and>
   (\<exists>w'. ShowNotification example_args example_answers_error example_world =
            Inr (cancel_callback example_args, w') \<and>
     notifications w' = notifications example_world \<and>
     filter is_delegate_call (new_events example_world w') = [] \<and>
     filter is_show (new_events example_world w') =
       [NotifyNotificationShow (notify_notification_new example_answers_error)] \<and>
     last_events 3 (new_events example_world w') =
       [NotifyNotificationShow (notify_notification_new example_answers_error),
        LogError ''notify_notification_show'' example_error,
        GObjectUnref (notify_notification_new example_answers_error)])"
proof -
  have h: "show_error example_answers_error = Some example_error"
    by (simp add: example_answers_error_def)
  show ?thesis
    by (rule conjI [OF h ShowNotification_error_abandons [OF h]])
qed

text \<open>
  C3, as the specification states it, fails: cancelling the tracked notification 7
  while \<^verbatim>\<open>notify_notification_close\<close> reports an error still calls the delegate's
  \<^verbatim>\<open>NotificationClosed\<close> and takes 7 out of the tracked list.
\<close>

theorem CancelNotification_error_counterexample:
  "notifications example_world = [7] \<and>
   map_sum id notifications (CancelNotification 7 (Some example_error) example_world) = Inr [] \<and>
   map_sum id trace (CancelNotification 7 (Some example_error) example_world) =
     Inr [NotifyNotificationClose 7,
          LogError ''notify_notification_close'' example_error,
          NotificationClosed 3,
          GObjectUnref 7]"
  by (simp add: callback_defs example_world_def)

text \<open>
  C3, amended. When \<^verbatim>\<open>notify_notification_close\<close> reports an error,
  \<^verbatim>\<open>CancelNotification\<close> logs it and goes on as it does without an error: for a
  notification that carries its delegate, the delegate's \<^verbatim>\<open>NotificationClosed\<close>
  is called, the handle is taken out of the tracked list and the notification is
  released.
\<close>

theorem CancelNotification_error_continues:
  assumes "delegate_data w n = Some d"
  shows "\<exists>w'. CancelNotification n (Some e) w = Inr w' \<and>
     new_events w w' =
       [NotifyNotificationClose n,
        LogError ''notify_notification_close'' e,
        NotificationClosed d,
        GObjectUnref n] \<and>
     notifications w' = remove1 n (notifications w)"
  using assms by (simp add: callback_defs)

theorem CancelNotification_error_continues_witness:
  "delegate_data example_world 7 = Some 3 \<and>
   (\<exists>w'. CancelNotification 7 (Some example_error) example_world = Inr w' \<and>
     new_events example_world w' =
       [NotifyNotificationClose 7,
        LogError ''notify_notification_close'' example_error,
        NotificationClosed 3,
        GObjectUnref 7] \<and>
     notifications w' = remove1 7 (notifications example_world))"
proof -
  have h: "delegate_data example_world 7 = Some 3"
    by (simp add: example_world_def)
  show ?thesis
    by (rule conjI [OF h CancelNotification_error_continues [OF h]])
qed

subsection \<open>Relaying the lifecycle to the delegate\<close>

text \<open>
  C4. A show that succeeds, with delegate \<open>d\<close>, returns, has attached \<open>d\<close> to the
  notification, and has made one delegate call, \<^verbatim>\<open>NotificationDisplayed\<close> on \<open>d\<close>,
  right after \<^verbatim>\<open>notify_notification_show\<close>. The closed callback on a non-null
  notification that carries delegate \<open>d'\<close> calls \<^verbatim>\<open>NotificationClosed\<close> on \<open>d'\<close>,
  and the view callback calls \<^verbatim>\<open>NotificationClick\<close> on \<open>d'\<close>. Every tracked
  notification of a well-formed state carries a delegate.
\<close>

theorem lifecycle_events_relayed:
  "(show_error x = None \<and> delegate_ptr a = Some d \<longrightarrow>
      (\<exists>cb w'. ShowNotification a x w = Inr (cb, w') \<and>
         delegate_data w' (notify_notification_new x) = Some d \<and>
         filter is_delegate_call (new_events w w') = [NotificationDisplayed d] \<and>
         last_events 2 (new_events w w') =
           [NotifyNotificationShow (notify_notification_new x), NotificationDisplayed d])) \<and>
   (delegate_data w n = Some d' \<longrightarrow>
      (\<exists>w'. OnNotificationClosed (Some n) w = Inr w' \<and>
         new_events w w' = [NotificationClosed d', GObjectUnref n])) \<and>
   (delegate_data w n = Some d' \<longrightarrow>
      (\<exists>w'. OnNotificationView (Some n) action w = Inr w' \<and>
         new_events w w' = [NotificationClick d', GObjectUnref n])) \<and>
   (tracked_ok w \<and> n \<in> set (notifications w) \<longrightarrow> delegate_data w n \<noteq> None)"
proof -
  have shown: "\<exists>cb w'. ShowNotification a x w = Inr (cb, w') \<and>
         delegate_data w' (notify_notification_new x) = Some d \<and>
         filter is_delegate_call (new_events w w') = [NotificationDisplayed d] \<and>
         last_events 2 (new_events w w') =
           [NotifyNotificationShow (notify_notification_new x), NotificationDisplayed d]"
    if "show_error x = None" "delegate_ptr a = Some d"
    using that by (auto simp add: show_defs split: option.splits if_splits)
  have closed: "\<exists>w'. OnNotificationClosed (Some n) w = Inr w' \<and>
         new_events w w' = [NotificationClosed d', GObjectUnref n]"
    if "delegate_data w n = Some d'"
    using that by (simp add: callback_defs)
  have clicked: "\<exists>w'. OnNotificationView (Some n) action w = Inr w' \<and>
         new_events w w' = [NotificationClick d', GObjectUnref n]"
    if "delegate_data w n = Some d'"
    using that by (simp add: callback_defs)
  show ?thesis
    using shown closed clicked tracked_has_delegate [of w n] by blast
qed

theorem lifecycle_events_relayed_witness:
  "(show_error example_answers = None \<and> delegate_ptr example_args = Some 4) \<and>
   delegate_data example_world 7 = Some 3 \<and>
   (tracked_ok example_world \<and> 7 \<in> set (notifications example_world)) \<and>
   (\<exists>cb w'. ShowNotification example_args example_answers example_world = Inr (cb, w') \<and>
      delegate_data w' (notify_notification_new example_answers) = Some 4 \<and>
      filter is_delegate_call (new_events example_world w') = [NotificationDisplayed 4] \<and>
      last_events 2 (new_events example_world w') =
        [NotifyNotificationShow (notify_notification_new example_answers),
         NotificationDisplayed 4]) \<and>
   (\<exists>w'. OnNotificationClosed (Some 7) example_world = Inr w' \<and>
      new_events example_world w' = [NotificationClosed 3, GObjectUnref 7]) \<and>
   (\<exists>w'. OnNotificationView (Some 7) ''default'' example_world = Inr w' \<and>
      new_events example_world w' = [NotificationClick 3, GObjectUnref 7]) \<and>
   delegate_data example_world 7 \<noteq> None"
proof -
  have h1: "show_error example_answers = None \<and> delegate_ptr example_args = Some 4"
    by (simp add: example_answers_def example_args_def)
  have h2: "delegate_data example_world 7 = Some 3"
    by (simp add: example_world_def)
  have h3: "tracked_ok example_world \<and> 7 \<in> set (notifications example_world)"
    by (simp add: tracked_ok_def example_world_def)
  show ?thesis
    using h1 h2 h3
      lifecycle_events_relayed [of example_answers example_args 4 example_world 7 3 "''default''"]
    by blast
qed

subsection \<open>The tracked list\<close>

text \<open>
  C1. An operation of the presenter returns exactly when the delegate pointer it
  calls through is not null, and then the tracked list is the one the specification
  describes: a show appends its handle exactly when \<^verbatim>\<open>notify_notification_show\<close>
  reports no error; a cancel, and a close or click report on a non-null handle,
  take the handle out; nothing else changes the list. A cancel, a close report and
  a click report on a notification that is tracked return, and afterwards the
  handle is no member of the list. Over a whole sequence of operations, each a
  show with a delegate and a new object or about a tracked notification, from a
  well-formed state (each tracked handle occurs once and carries its delegate): the
  sequence runs to its end, the state stays well-formed, and the list holds exactly
  the handles the history leaves open, those shown with success and since neither
  cancelled nor reported closed or clicked.
\<close>

theorem tracked_list_follows_operations:
  "((\<exists>w'. step operation w = Inr w') = delegate_present operation w) \<and>
   (delegate_present operation w \<longrightarrow>
      (\<exists>w'. step operation w = Inr w' \<and>
         notifications w' = tracked_after operation (notifications w))) \<and>
   (tracked_ok w \<and> n \<in> set (notifications w) \<and>
    (removal = Cancel n e \<or> removal = Closed (Some n) \<or> removal = View (Some n) action) \<longrightarrow>
      (\<exists>w'. step removal w = Inr w' \<and>
         notifications w' = remove1 n (notifications w) \<and>
         n \<notin> set (notifications w') \<and> tracked_ok w')) \<and>
   (tracked_ok w \<and> all_in_order ops (notifications w) \<longrightarrow>
      (\<exists>w'. run ops w = Inr w' \<and>
         notifications w' = fold tracked_after ops (notifications w) \<and> tracked_ok w'))"
proof -
  have one: "\<exists>w'. step operation w = Inr w' \<and>
      notifications w' = tracked_after operation (notifications w)"
    if "delegate_present operation w"
  proof -
    from that obtain w' where "step operation w = Inr w'"
      using step_returns_iff [of operation w] by blast
    with step_list [OF this] show ?thesis by blast
  qed
  have out: "\<exists>w'. step removal w = Inr w' \<and>
      notifications w' = remove1 n (notifications w) \<and>
      n \<notin> set (notifications w') \<and> tracked_ok w'"
    if ok: "tracked_ok w" and mem: "n \<in> set (notifications w)"
      and rem: "removal = Cancel n e \<or> removal = Closed (Some n) \<or> removal = View (Some n) action"
  proof -
    from rem mem have ord: "in_order removal (notifications w)"
      by (auto simp add: in_order_def)
    from in_order_present [OF ok ord] obtain w' where
      w': "step removal w = Inr w'" and fr: "fresh removal w"
      using step_returns_iff [of removal w] by blast
    have "notifications w' = remove1 n (notifications w)"
      using step_list [OF w'] rem by (auto simp add: tracked_after_def)
    moreover have "n \<notin> set (notifications w')"
      by (rule step_takes_out [OF w' ok rem])
    moreover have "tracked_ok w'"
      by (rule step_keeps_tracked_ok [OF w' ok fr])
    ultimately show ?thesis using w' by blast
  qed
  have c1: "(\<exists>w'. step operation w = Inr w') = delegate_present operation w"
    by (rule step_returns_iff)
  have c2: "delegate_present operation w \<longrightarrow>
      (\<exists>w'. step operation w = Inr w' \<and>
         notifications w' = tracked_after operation (notifications w))"
    by (rule impI) (rule one)
  have c3: "tracked_ok w \<and> n \<in> set (notifications w) \<and>
      (removal = Cancel n e \<or> removal = Closed (Some n) \<or> removal = View (Some n) action)
      \<longrightarrow>
      (\<exists>w'. step removal w = Inr w' \<and>
         notifications w' = remove1 n (notifications w) \<and>
         n \<notin> set (notifications w') \<and> tracked_ok w')"
  proof (rule impI, elim conjE)
    assume "tracked_ok w" "n \<in> set (notifications w)"
      "removal = Cancel n e \<or> removal = Closed (Some n) \<or> removal = View (Some n) action"
    then show "\<exists>w'. step removal w = Inr w' \<and>
         notifications w' = remove1 n (notifications w) \<and>
         n \<notin> set (notifications w') \<and> tracked_ok w'"
      by (rule out)
  qed
  have c4: "tracked_ok w \<and> all_in_order ops (notifications w) \<longrightarrow>
      (\<exists>w'. run ops w = Inr w' \<and>
         notifications w' = fold tracked_after ops (notifications w) \<and> tracked_ok w')"
  proof (rule impI, elim conjE)
    assume "tracked_ok w" "all_in_order ops (notifications w)"
    then show "\<exists>w'. run ops w = Inr w' \<and>
         notifications w' = fold tracked_after ops (notifications w) \<and> tracked_ok w'"
      by (rule run_in_order)
  qed
  show ?thesis
    by (rule conjI [OF c1 conjI [OF c2 conjI [OF c3 c4]]])
qed

theorem tracked_list_follows_operations_witness:
  "(\<exists>w'. step (Show example_args example_answers) example_world = Inr w' \<and>
      notifications w' = [7, 8]) \<and>
   (\<exists>w'. step (Cancel 7 None) example_world = Inr w' \<and>
      notifications w' = [] \<and> 7 \<notin> set (notifications w') \<and> tracked_ok w') \<and>
   (\<exists>w'. run example_run example_world = Inr w' \<and>
      notifications w' = [10] \<and> tracked_ok w')"
proof -
  note facts = tracked_list_follows_operations
    [of "Show example_args example_answers" example_world 7 "Cancel 7 None" None
        "''default''" example_run]
  have ok: "tracked_ok example_world"
    by (simp add: tracked_ok_def example_world_def)
  have mem: "7 \<in> set (notifications example_world)"
    by (simp add: example_world_def)
  have present: "delegate_present (Show example_args example_answers) example_world"
    by (simp add: delegate_present_def example_args_def)
  have new: "notify_notification_new example_answers = 8" "show_error example_answers = None"
    by (simp_all add: example_answers_def)
  have l: "notifications example_world = [7]"
    by (simp add: example_world_def)
  have ord: "all_in_order example_run (notifications example_world)"
    by (simp add: example_run_def l in_order_def tracked_after_def new example_args_def)
  have final: "fold tracked_after example_run (notifications example_world) = [10]"
    by (simp add: example_run_def l tracked_after_def new)
  have shown: "tracked_after (Show example_args example_answers) (notifications example_world)
      = [7, 8]"
    by (simp add: tracked_after_def new l)
  from facts present have
    "\<exists>w'. step (Show example_args example_answers) example_world = Inr w' \<and>
      notifications w' =
        tracked_after (Show example_args example_answers) (notifications example_world)"
    by blast
  then have a: "\<exists>w'. step (Show example_args example_answers) example_world = Inr w' \<and>
      notifications w' = [7, 8]"
    by (simp only: shown)
  from facts ok mem have
    "\<exists>w'. step (Cancel 7 None) example_world = Inr w' \<and>
      notifications w' = remove1 7 (notifications example_world) \<and>
      7 \<notin> set (notifications w') \<and> tracked_ok w'"
    by blast
  then have b: "\<exists>w'. step (Cancel 7 None) example_world = Inr w' \<and>
      notifications w' = [] \<and> 7 \<notin> set (notifications w') \<and> tracked_ok w'"
    by (simp add: l)
  from facts ok ord have
    "\<exists>w'. run example_run example_world = Inr w' \<and>
      notifications w' = fold tracked_after example_run (notifications example_world) \<and>
      tracked_ok w'"
    by blast
  then have c: "\<exists>w'. run example_run example_world = Inr w' \<and>
      notifications w' = [10] \<and> tracked_ok w'"
    by (simp only: final)
  show ?thesis
    by (rule conjI [OF a conjI [OF b c]])
qed

subsection \<open>Creation\<close>

text \<open>
  C5. \<^verbatim>\<open>Create\<close> returns a presenter exactly when \<^verbatim>\<open>Init\<close> succeeds, that is
  when one of \<^verbatim>\<open>libnotify.so.4\<close>, \<^verbatim>\<open>libnotify.so.1\<close>, \<^verbatim>\<open>libnotify.so\<close> loads
  and the library is initialised already or \<^verbatim>\<open>notify_init\<close> with the
  application's name succeeds; otherwise it returns null. The presenter returned
  tracks nothing, and the names are tried in that order, up to the first that loads.
\<close>

theorem Create_iff_Init_succeeds:
  "(fst (Create x t) \<noteq> None) = fst (Init x t) \<and>
   fst (Init x t) =
     ((Load x ''libnotify.so.4'' \<or> Load x ''libnotify.so.1'' \<or> Load x ''libnotify.so'') \<and>
      (notify_is_initted x \<or> notify_init x (GetApplicationName x))) \<and>
   (fst (Create x t) = None \<or> fst (Create x t) = Some []) \<and>
   filter is_load (drop (length t) (snd (Create x t))) = map LibLoad (attempts x)"
  by (auto simp add: Create_def Init_def call_Load_def call_notify_is_initted_def
        call_notify_init_def Let_def attempts_def library_names_def
        split: prod.splits if_splits)

theorem Create_iff_Init_succeeds_witness:
  "fst (Create example_init []) = Some [] \<and>
   filter is_load (snd (Create example_init [])) =
     [LibLoad ''libnotify.so.4'', LibLoad ''libnotify.so.1'']"
proof -
  have tried: "attempts example_init = [''libnotify.so.4'', ''libnotify.so.1'']"
    by (simp add: example_init_def attempts_def library_names_def)
  have answers:
    "(Load example_init ''libnotify.so.4'' \<or> Load example_init ''libnotify.so.1'' \<or>
      Load example_init ''libnotify.so'') \<and>
     (notify_is_initted example_init \<or>
      notify_init example_init (GetApplicationName example_init))"
    by (simp add: example_init_def)
  show ?thesis
    using Create_iff_Init_succeeds [of example_init "[]"] tried answers by auto
qed

subsection \<open>Detecting Unity\<close>

text \<open>
  C6. From the start of the process, a call of \<^verbatim>\<open>UnityIsRunning\<close> returns true
  when \<^verbatim>\<open>ELECTRON_USE_UBUNTU_NOTIFIER\<close> is set, and otherwise returns true exactly
  when the directory found holds a file whose path starts with
  \<^verbatim>\<open>/usr/lib/libunity-\<close>. In a run of calls, the \<open>k\<close>-th call returns true when
  the variable is set at that call, and otherwise exactly when the directory
  enumerated by the first call that had the variable unset holds such a file.
\<close>

theorem UnityIsRunning_detects:
  assumes "process_start w"
  shows "fst (UnityIsRunning env files w) = (env \<noteq> None \<or> has_libunity files) \<and>
     (k < length cs \<longrightarrow>
        fst (UnityIsRunning_calls cs w) ! k =
          (fst (cs ! k) \<noteq> None \<or> has_libunity (first_scanned cs)))"
proof -
  from assms have start: "\<not> unity_has_result w" "\<not> unity_result w"
    by (simp_all add: process_start_def)
  have "fst (UnityIsRunning env files w) = (env \<noteq> None \<or> has_libunity files)"
    using start by (simp add: UnityIsRunning_def Let_def emit_def scan_usr_lib_eq)
  moreover have "fst (UnityIsRunning_calls cs w) ! k =
      (fst (cs ! k) \<noteq> None \<or> has_libunity (first_scanned cs))" if "k < length cs"
    using that by (simp add: calls_from_start [OF start])
  ultimately show ?thesis by blast
qed

theorem UnityIsRunning_detects_witness:
  "process_start example_world \<and> 2 < length example_calls \<and>
   fst (UnityIsRunning_calls example_calls example_world) ! 2 = True \<and>
   fst (UnityIsRunning None [''libc.so.6''] example_world) = False"
proof -
  have h: "process_start example_world"
    by (simp add: process_start_def example_world_def)
  have k: "2 < length example_calls"
    by (simp add: example_calls_def)
  have unset: "fst (example_calls ! 2) = None"
    by (simp add: example_calls_def)
  have found: "has_libunity (first_scanned example_calls)"
    by (simp add: example_calls_def first_scanned_def has_libunity_def StartsWith_def)
  have none: "\<not> has_libunity [''libc.so.6'']"
    by (simp add: has_libunity_def StartsWith_def)
  show ?thesis
    using h k unset found none
      UnityIsRunning_detects [OF h, of None "[''libc.so.6'']" 2 example_calls]
    by simp
qed

text \<open>
  C9. In a run of calls of \<^verbatim>\<open>UnityIsRunning\<close>, from any state, \<^verbatim>\<open>/usr/lib\<close> is
  enumerated at most once, and two calls that both find the variable set, or both
  find it unset, return the same result. Calling again under the same variable,
  whatever the directory holds by then, returns the result of the call before and
  leaves the state as that call left it.
\<close>

theorem UnityIsRunning_caches:
  "scans (new_events w (snd (UnityIsRunning_calls cs w))) \<le> 1 \<and>
   (i < length cs \<and> j < length cs \<and> (fst (cs ! i) = None) = (fst (cs ! j) = None) \<longrightarrow>
      fst (UnityIsRunning_calls cs w) ! i = fst (UnityIsRunning_calls cs w) ! j) \<and>
   UnityIsRunning env files2 (snd (UnityIsRunning env files1 w)) = UnityIsRunning env files1 w"
proof -
  obtain v evs where
    results: "fst (UnityIsRunning_calls cs w) = map (\<lambda>c. fst c \<noteq> None \<or> v) cs"
    and events: "trace (snd (UnityIsRunning_calls cs w)) = trace w @ evs" "scans evs \<le> 1"
    using calls_uniform [of cs w] by blast
  have "scans (new_events w (snd (UnityIsRunning_calls cs w))) \<le> 1"
    using events by (simp add: new_events_def)
  moreover have "fst (UnityIsRunning_calls cs w) ! i = fst (UnityIsRunning_calls cs w) ! j"
    if "i < length cs" "j < length cs" "(fst (cs ! i) = None) = (fst (cs ! j) = None)"
    using that by (auto simp add: results)
  moreover have
    "UnityIsRunning env files2 (snd (UnityIsRunning env files1 w)) = UnityIsRunning env files1 w"
    by (simp add: UnityIsRunning_def Let_def emit_def)
  ultimately show ?thesis by (intro conjI impI) (elim conjE | assumption)+
qed

theorem UnityIsRunning_caches_witness:
  "(1 < length example_calls \<and> 2 < length example_calls \<and>
    (fst (example_calls ! 1) = None) = (fst (example_calls ! 2) = None)) \<and>
   scans (new_events example_world (snd (UnityIsRunning_calls example_calls example_world))) \<le> 1 \<and>
   fst (UnityIsRunning_calls example_calls example_world) ! 1 =
     fst (UnityIsRunning_calls example_calls example_world) ! 2"
proof -
  have h: "1 < length example_calls \<and> 2 < length example_calls \<and>
      (fst (example_calls ! 1) = None) = (fst (example_calls ! 2) = None)"
    by (simp add: example_calls_def)
  note caches = UnityIsRunning_caches [of example_world example_calls 1 2 None "[]" "[]"]
  from caches have once:
    "scans (new_events example_world (snd (UnityIsRunning_calls example_calls example_world))) \<le> 1"
    by (rule conjunct1)
  from caches have
    "1 < length example_calls \<and> 2 < length example_calls \<and>
       (fst (example_calls ! 1) = None) = (fst (example_calls ! 2) = None) \<longrightarrow>
     fst (UnityIsRunning_calls example_calls example_world) ! 1 =
       fst (UnityIsRunning_calls example_calls example_world) ! 2"
    by (rule conjunct1 [OF conjunct2])
  from this h have same:
    "fst (UnityIsRunning_calls example_calls example_world) ! 1 =
       fst (UnityIsRunning_calls example_calls example_world) ! 2"
    by (rule mp)
  show ?thesis
    by (rule conjI [OF h conjI [OF once same]])
qed

subsection \<open>What a show sets up\<close>

text \<open>
  C7. A call of \<^verbatim>\<open>ShowNotification\<close> that returns (the show fails, or there is a
  delegate to tell) has, when the icon draws something, converted the icon with
  \<^verbatim>\<open>GdkPixbufFromSkBitmap\<close> and then set the resulting pixbuf as the
  notification's image, both before the one \<^verbatim>\<open>notify_notification_show\<close>; when
  the icon draws nothing there is neither a conversion nor an image set.
\<close>

theorem ShowNotification_icon:
  assumes "show_error x \<noteq> None \<or> delegate_ptr a \<noteq> None"
  shows "\<exists>cb w'. ShowNotification a x w = Inr (cb, w') \<and>
     filter (\<lambda>e. is_image_event e \<or> is_show e) (new_events w w') =
       (if drawsNothing (icon a) then []
        else [GdkPixbufFromSkBitmap (icon a) (pixbuf_result x),
              NotifyNotificationSetImageFromPixbuf (notify_notification_new x)
                (pixbuf_result x)])
       @ [NotifyNotificationShow (notify_notification_new x)]"
proof -
  from assms obtain cb w' where r: "ShowNotification a x w = Inr (cb, w')"
    using ShowNotification_returns [of a x w] by blast
  from ShowNotification_image [OF r] r show ?thesis by blast
qed

theorem ShowNotification_icon_witness:
  "delegate_ptr example_args = Some 4 \<and>
   drawsNothing (icon example_args) = False \<and>
   (\<exists>cb w'. ShowNotification example_args example_answers example_world = Inr (cb, w') \<and>
     filter (\<lambda>e. is_image_event e \<or> is_show e) (new_events example_world w') =
       [GdkPixbufFromSkBitmap (icon example_args) 5,
        NotifyNotificationSetImageFromPixbuf 8 5,
        NotifyNotificationShow 8])"
proof -
  have d: "delegate_ptr example_args = Some 4"
    by (simp add: example_args_def)
  then have h: "show_error example_answers \<noteq> None \<or> delegate_ptr example_args \<noteq> None"
    by simp
  have v: "drawsNothing (icon example_args) = False" "pixbuf_result example_answers = 5"
    "notify_notification_new example_answers = 8"
    by (simp_all add: example_args_def example_answers_def)
  show ?thesis
    using d v ShowNotification_icon [OF h, of example_world]
    by simp
qed

text \<open>
  C8. A call of \<^verbatim>\<open>ShowNotification\<close> that returns has added an action to the
  notification exactly when its call of \<^verbatim>\<open>UnityIsRunning\<close> returned false, and
  then the one action \<^verbatim>\<open>"default"\<close> labelled \<^verbatim>\<open>"View"\<close>; when
  \<^verbatim>\<open>ELECTRON_USE_UBUNTU_NOTIFIER\<close> is set no action is added.
\<close>

theorem ShowNotification_view_action:
  assumes "show_error x \<noteq> None \<or> delegate_ptr a \<noteq> None"
  shows "\<exists>cb w'. ShowNotification a x w = Inr (cb, w') \<and>
     filter is_add_action (new_events w w') =
       (if fst (UnityIsRunning (getenv_result x) (usr_lib_files x) w) then []
        else [NotifyNotificationAddAction (notify_notification_new x) ''default'' ''View'']) \<and>
     (getenv_result x \<noteq> None \<longrightarrow> filter is_add_action (new_events w w') = [])"
proof -
  from assms obtain cb w' where r: "ShowNotification a x w = Inr (cb, w')"
    using ShowNotification_returns [of a x w] by blast
  have "fst (UnityIsRunning (getenv_result x) (usr_lib_files x) w)" if "getenv_result x \<noteq> None"
    using that by (simp add: UnityIsRunning_def)
  with ShowNotification_add_action [OF r] r show ?thesis by auto
qed

theorem ShowNotification_view_action_witness:
  "delegate_ptr example_args = Some 4 \<and>
   fst (UnityIsRunning (getenv_result example_answers) (usr_lib_files example_answers)
          example_world) = False \<and>
   (\<exists>cb w'. ShowNotification example_args example_answers example_world = Inr (cb, w') \<and>
     filter is_add_action (new_events example_world w') =
       [NotifyNotificationAddAction 8 ''default'' ''View'']) \<and>
   (\<exists>cb w'. ShowNotification example_args example_answers_env example_world = Inr (cb, w') \<and>
     filter is_add_action (new_events example_world w') = [])"
proof -
  have d: "delegate_ptr example_args = Some 4"
    by (simp add: example_args_def)
  then have h: "show_error x \<noteq> None \<or> delegate_ptr example_args \<noteq> None" for x
    by simp
  have u: "fst (UnityIsRunning (getenv_result example_answers)
                  (usr_lib_files example_answers) example_world) = False"
    by (simp add: UnityIsRunning_def example_answers_def example_world_def Let_def emit_def
          Next_def StartsWith_def)
  have v: "notify_notification_new example_answers = 8"
    "getenv_result example_answers_env = Some ''1''"
    by (simp_all add: example_answers_def example_answers_env_def)
  have unset: "\<exists>cb w'. ShowNotification example_args example_answers example_world = Inr (cb, w') \<and>
     filter is_add_action (new_events example_world w') =
       [NotifyNotificationAddAction 8 ''default'' ''View'']"
    using u v(1) ShowNotification_view_action [OF h, of example_answers example_world]
    by auto
  have var_set: "\<exists>cb w'. ShowNotification example_args example_answers_env example_world = Inr (cb, w') \<and>
     filter is_add_action (new_events example_world w') = []"
    using v(2) ShowNotification_view_action [OF h, of example_answers_env example_world]
    by auto
  show ?thesis
    using d u unset var_set by blast
qed

end
